theory Spec2Isabelle
  imports Main "HOL-Library.AList" "HOL-Library.Sublist"
begin

section \<open>The blob URL manager of \<open>utils/blobUrlManager.js\<close>\<close>

text \<open>
  The manager is a singleton object with three tables and it talks to three parts of the
  browser: the object-URL store (\<open>URL.createObjectURL\<close>, \<open>URL.revokeObjectURL\<close>),
  the timer queue (\<open>setTimeout\<close>) and the console.  All of it is one record that every
  operation takes and returns.

  \<^item> A JavaScript \<open>Map\<close> is an association list in insertion order: \<open>get\<close> is
    \<^const>\<open>map_of\<close>, \<open>set\<close> is \<^const>\<open>AList.update\<close> (in place for a present key, at the
    end for a new one), \<open>delete\<close> is \<^const>\<open>AList.delete\<close>, \<open>size\<close> is the length.
  \<^item> A JavaScript \<open>Set\<close> is a list in insertion order.
  \<^item> \<open>Date.now()\<close> reads the field \<open>clock\<close>; time does not pass inside one call.
  \<^item> An exception is a value: an operation returns \<open>exn option \<times> state\<close>, where
    \<open>Some e\<close> says that \<open>e\<close> escaped to the caller.
  \<^item> Sizes, counts and times are natural numbers: the source's numbers are taken in the
    range where its floating-point arithmetic is exact (below \<open>2^53\<close>).
\<close>

type_synonym url = string
type_synonym component_id = string

subsection \<open>Data\<close>

text \<open>
  The metadata object stored per URL.  The fields \<open>blob\<close> and \<open>originalBlob\<close> only keep
  the data alive and are not modelled.  \<open>size'\<close> and \<open>type'\<close> are the source's \<open>size\<close>
  and \<open>type\<close>; \<open>extras\<close> holds every further key of the caller's metadata.
\<close>

record entry =
  componentId :: component_id
  createdAt :: nat
  lastAccessed :: nat
  accessCount :: nat
  size' :: nat
  type' :: string
  isActive :: bool
  extras :: "(string \<times> string) list"

text \<open>
  The caller's \<open>metadata\<close> argument.  The object literal of \<open>createBlobUrl\<close> ends with
  \<open>...metadata\<close>, so a key of the caller's object that has the name of a core field
  replaces the value computed before it.  \<open>None\<close> says that the key is absent.
\<close>

record metadata_arg =
  m_componentId :: "component_id option"
  m_createdAt :: "nat option"
  m_lastAccessed :: "nat option"
  m_accessCount :: "nat option"
  m_size :: "nat option"
  m_type :: "string option"
  m_isActive :: "bool option"
  m_extras :: "(string \<times> string) list"

definition no_metadata :: metadata_arg where
  "no_metadata = \<lparr>m_componentId = None, m_createdAt = None, m_lastAccessed = None,
     m_accessCount = None, m_size = None, m_type = None, m_isActive = None, m_extras = []\<rparr>"

text \<open>
  What a caller can pass as \<open>blob\<close>: a falsy value, a value without a \<open>size\<close> property,
  an object with a numeric \<open>size\<close> that is no \<open>Blob\<close> (the browser's
  \<open>URL.createObjectURL\<close> throws a \<open>TypeError\<close> on it), or a \<open>Blob\<close>/\<open>File\<close> with its
  size and type.
\<close>

datatype blob_arg = Nullish | NoSize | SizedObject nat | Blob nat string

fun blob_size :: "blob_arg \<Rightarrow> nat option" where
  "blob_size Nullish = None"
| "blob_size NoSize = None"
| "blob_size (SizedObject n) = Some n"
| "blob_size (Blob n t) = Some n"

fun blob_type :: "blob_arg \<Rightarrow> string" where
  "blob_type (Blob n t) = t"
| "blob_type _ = []"

text \<open>
  A cleanup callback is caller code.  The model knows it by a number and by whether it
  throws; it is taken not to call back into the manager.
\<close>

record callback =
  cb_id :: nat
  cb_throws :: bool

datatype exn = TypeError | CallbackThrew nat

datatype task = Validate url | Release url component_id

datatype log_event =
    ErrInvalidBlob | WarnEmptyBlob | LogCreated url | ErrCreating
  | LogTracked url | WarnUnknownUrl url | WarnCallbackError | LogRevoked url
  | ErrRevoking | LogCleanedComponent component_id nat | LogShutdown nat
  | ErrCreatingFor string

record state =
  activeUrls :: "(url \<times> entry) list"
  urlsByComponent :: "(component_id \<times> url list) list"
  cleanupCallbacks :: "(url \<times> callback) list"
  issued :: nat
  objectUrls :: "url list"
  timers :: "(nat \<times> task) list"
  clock :: nat
  console :: "log_event list"
  invoked :: "nat list"

definition init :: state where
  "init = \<lparr>activeUrls = [], urlsByComponent = [], cleanupCallbacks = [], issued = 0,
     objectUrls = [], timers = [], clock = 0, console = [], invoked = []\<rparr>"

subsection \<open>The browser\<close>

text \<open>
  \<open>URL.createObjectURL\<close> throws a \<open>TypeError\<close> for an argument that is no \<open>Blob\<close>; for a
  \<open>Blob\<close> it returns a URL of the scheme \<open>blob:\<close> that it has not returned before: here
  \<open>blob:\<close> followed by the number of URLs issued so far, in unary.
  \<open>URL.revokeObjectURL\<close> forgets a URL and does nothing for one it does not hold.
  \<open>setTimeout\<close> queues a task with its due time.
\<close>

definition objectUrl :: "nat \<Rightarrow> url" where
  "objectUrl n = ''blob:'' @ replicate n (CHR ''u'')"

definition createObjectURL :: "blob_arg \<Rightarrow> state \<Rightarrow> (exn + url) \<times> state" where
  "createObjectURL b s =
     (case b of
        Blob n t \<Rightarrow>
          (Inr (objectUrl (issued s)),
           s\<lparr>issued := Suc (issued s), objectUrls := objectUrls s @ [objectUrl (issued s)]\<rparr>)
      | _ \<Rightarrow> (Inl TypeError, s))"

definition revokeObjectURL :: "url \<Rightarrow> state \<Rightarrow> state" where
  "revokeObjectURL u s = s\<lparr>objectUrls := removeAll u (objectUrls s)\<rparr>"

definition setTimeout :: "task \<Rightarrow> nat \<Rightarrow> state \<Rightarrow> state" where
  "setTimeout t d s = s\<lparr>timers := timers s @ [(clock s + d, t)]\<rparr>"

definition console_log :: "log_event \<Rightarrow> state \<Rightarrow> state" where
  "console_log ev s = s\<lparr>console := console s @ [ev]\<rparr>"

definition set_add :: "'a \<Rightarrow> 'a list \<Rightarrow> 'a list" where
  "set_add x xs = (if x \<in> set xs then xs else xs @ [x])"

definition startsWith :: "string \<Rightarrow> string \<Rightarrow> bool" where
  "startsWith u p = prefix p u"

subsection \<open>createBlobUrl\<close>

definition override :: "'a option \<Rightarrow> 'a \<Rightarrow> 'a" where
  "override v d = (case v of None \<Rightarrow> d | Some x \<Rightarrow> x)"

definition new_entry :: "nat \<Rightarrow> string \<Rightarrow> component_id \<Rightarrow> nat \<Rightarrow> metadata_arg \<Rightarrow> entry" where
  "new_entry n t cid now m =
     \<lparr>componentId = override (m_componentId m) cid,
      createdAt = override (m_createdAt m) now,
      lastAccessed = override (m_lastAccessed m) now,
      accessCount = override (m_accessCount m) 0,
      size' = override (m_size m) n,
      type' = override (m_type m) t,
      isActive = override (m_isActive m) True,
      extras = m_extras m\<rparr>"

definition track_by_component :: "component_id \<Rightarrow> url \<Rightarrow> state \<Rightarrow> state" where
  "track_by_component cid u s =
     (case map_of (urlsByComponent s) cid of
        None \<Rightarrow> s\<lparr>urlsByComponent := AList.update cid [u] (urlsByComponent s)\<rparr>
      | Some us \<Rightarrow> s\<lparr>urlsByComponent := AList.update cid (set_add u us) (urlsByComponent s)\<rparr>)"

text \<open>
  The whole body is inside \<open>try\<close>; the \<open>catch\<close> logs and returns \<open>null\<close>.  The one call
  that can throw is \<open>URL.createObjectURL\<close>, before any table is written.
\<close>

definition createBlobUrl ::
    "blob_arg \<Rightarrow> component_id \<Rightarrow> metadata_arg \<Rightarrow> state \<Rightarrow> url option \<times> state" where
  "createBlobUrl blob cid m s =
     (case blob_size blob of
        None \<Rightarrow> (None, console_log ErrInvalidBlob s)
      | Some n \<Rightarrow>
          if n = 0 then (None, console_log WarnEmptyBlob s)
          else (case createObjectURL blob s of
                  (Inl e, s1) \<Rightarrow> (None, console_log ErrCreating s1)
                | (Inr u, s1) \<Rightarrow>
                    (let s2 = s1\<lparr>activeUrls :=
                                  AList.update u (new_entry n (blob_type blob) cid (clock s1) m)
                                    (activeUrls s1)\<rparr>;
                         s3 = track_by_component cid u s2;
                         s4 = console_log (LogCreated u) s3
                     in (Some u, setTimeout (Validate u) 100 s4))))"

definition validateBlobUrl :: "url \<Rightarrow> state \<Rightarrow> bool \<times> state" where
  "validateBlobUrl u s =
     (if map_of (activeUrls s) u = None then (False, s)
      else (True, console_log (LogTracked u) s))"

subsection \<open>markUrlAccessed, registerCleanupCallback, isUrlActive\<close>

definition markUrlAccessed :: "url \<Rightarrow> state \<Rightarrow> state" where
  "markUrlAccessed u s =
     (case map_of (activeUrls s) u of
        None \<Rightarrow> s
      | Some md \<Rightarrow>
          s\<lparr>activeUrls :=
              AList.update u (md\<lparr>lastAccessed := clock s, accessCount := Suc (accessCount md)\<rparr>)
                (activeUrls s)\<rparr>)"

text \<open>The argument is \<open>None\<close> when the caller passes something that is not a function.\<close>

definition registerCleanupCallback :: "url \<Rightarrow> callback option \<Rightarrow> state \<Rightarrow> state" where
  "registerCleanupCallback u cb s =
     (case cb of
        Some f \<Rightarrow> s\<lparr>cleanupCallbacks := AList.update u f (cleanupCallbacks s)\<rparr>
      | None \<Rightarrow> s)"

definition isUrlActive :: "url \<Rightarrow> state \<Rightarrow> bool" where
  "isUrlActive u s = (map_of (activeUrls s) u \<noteq> None)"

definition getUrlMetadata :: "url \<Rightarrow> state \<Rightarrow> entry option" where
  "getUrlMetadata u s = map_of (activeUrls s) u"

definition getComponentUrls :: "component_id \<Rightarrow> state \<Rightarrow> url list" where
  "getComponentUrls cid s = (case map_of (urlsByComponent s) cid of None \<Rightarrow> [] | Some us \<Rightarrow> us)"

subsection \<open>revokeBlobUrl\<close>

text \<open>Calling the callback: it is recorded as invoked, and it returns or throws.\<close>

definition invoke :: "callback \<Rightarrow> state \<Rightarrow> exn option \<times> state" where
  "invoke cb s =
     ((if cb_throws cb then Some (CallbackThrew (cb_id cb)) else None),
      s\<lparr>invoked := invoked s @ [cb_id cb]\<rparr>)"

text \<open>The inner \<open>try\<close>/\<open>catch\<close> around the callback, and the \<open>delete\<close> after it.\<close>

definition run_cleanup_callback :: "url \<Rightarrow> state \<Rightarrow> exn option \<times> state" where
  "run_cleanup_callback u s =
     (case map_of (cleanupCallbacks s) u of
        None \<Rightarrow> (None, s)
      | Some cb \<Rightarrow>
          (let (x, s1) = invoke cb s;
               s2 = (case x of None \<Rightarrow> s1 | Some e \<Rightarrow> console_log WarnCallbackError s1)
           in (None, s2\<lparr>cleanupCallbacks := AList.delete u (cleanupCallbacks s2)\<rparr>)))"

text \<open>
  The body of the outer \<open>try\<close>.  The timer's closure keeps the metadata object; the
  only field it reads that decides anything is \<open>componentId\<close>, which no operation
  changes, so the task holds its value.
\<close>

definition revokeBlobUrl_body :: "url \<Rightarrow> state \<Rightarrow> exn option \<times> state" where
  "revokeBlobUrl_body u s =
     (case map_of (activeUrls s) u of
        None \<Rightarrow> (None, console_log (WarnUnknownUrl u) s)
      | Some md \<Rightarrow>
          (let s1 = s\<lparr>activeUrls := AList.update u (md\<lparr>isActive := False\<rparr>) (activeUrls s)\<rparr>
           in case run_cleanup_callback u s1 of
                (Some e, s2) \<Rightarrow> (Some e, s2)
              | (None, s2) \<Rightarrow> (None, setTimeout (Release u (componentId md)) 50 s2)))"

text \<open>The argument is \<open>None\<close> for \<open>null\<close> and \<open>undefined\<close>.\<close>

definition revokeBlobUrl :: "url option \<Rightarrow> state \<Rightarrow> exn option \<times> state" where
  "revokeBlobUrl url s =
     (case url of
        None \<Rightarrow> (None, s)
      | Some u \<Rightarrow>
          if u = [] \<or> \<not> startsWith u ''blob:'' then (None, s)
          else (case revokeBlobUrl_body u s of
                  (None, s') \<Rightarrow> (None, s')
                | (Some e, s') \<Rightarrow> (None, console_log ErrRevoking s')))"

text \<open>The task that \<open>revokeBlobUrl\<close> queues, run by the timer 50 ms later.\<close>

definition release :: "url \<Rightarrow> component_id \<Rightarrow> state \<Rightarrow> state" where
  "release u cid s =
     (let s1 = revokeObjectURL u s;
          s2 = s1\<lparr>activeUrls := AList.delete u (activeUrls s1)\<rparr>;
          s3 = (case map_of (urlsByComponent s2) cid of
                  None \<Rightarrow> s2
                | Some us \<Rightarrow>
                    (let idx = AList.update cid (removeAll u us) (urlsByComponent s2)
                     in if removeAll u us = []
                        then s2\<lparr>urlsByComponent := AList.delete cid idx\<rparr>
                        else s2\<lparr>urlsByComponent := idx\<rparr>))
      in console_log (LogRevoked u) s3)"

fun fire :: "task \<Rightarrow> state \<Rightarrow> state" where
  "fire (Validate u) s = snd (validateBlobUrl u s)"
| "fire (Release u cid) s = release u cid s"

subsection \<open>revokeComponentUrls\<close>

text \<open>\<open>urlsToRevoke.forEach(url => this.revokeBlobUrl(url))\<close>: an exception would end the loop.\<close>

fun revokeEach :: "url list \<Rightarrow> state \<Rightarrow> exn option \<times> state" where
  "revokeEach [] s = (None, s)"
| "revokeEach (u # us) s =
     (case revokeBlobUrl (Some u) s of
        (Some e, s') \<Rightarrow> (Some e, s')
      | (None, s') \<Rightarrow> revokeEach us s')"

text \<open>\<open>Array.from(componentUrls)\<close> is the list \<open>us\<close>, read before the loop starts.\<close>

definition revokeComponentUrls :: "component_id \<Rightarrow> state \<Rightarrow> exn option \<times> state" where
  "revokeComponentUrls cid s =
     (case map_of (urlsByComponent s) cid of
        None \<Rightarrow> (None, s)
      | Some us \<Rightarrow>
          (case revokeEach us s of
             (Some e, s') \<Rightarrow> (Some e, s')
           | (None, s') \<Rightarrow> (None, console_log (LogCleanedComponent cid (length us)) s')))"

subsection \<open>getStats\<close>

text \<open>
  A bucket is the source's \<open>{ count, size }\<close>; \<open>bytes\<close> is its \<open>size\<close>.  \<open>byComponent\<close>
  and \<open>byType\<close> are plain objects made by \<open>{}\<close>: the association lists hold their own
  keys, in the order they were added (the order in which JavaScript lists the keys is
  not modelled).  Such an object inherits the properties of \<open>Object.prototype\<close>, whose names
  in a browser are \<open>inherited_keys\<close>, all with a truthy value.  For one of these names
  the test \<open>!stats.byComponent[key]\<close> is false although the object has no bucket of its
  own, so none is made, and \<open>count++\<close> and \<open>size +=\<close> write to the inherited value (a
  built-in function, or \<open>Object.prototype\<close> itself for \<open>__proto__\<close>): the object that
  \<open>getStats\<close> returns gets no entry for that key.  The built-in objects are not part of
  the manager's record.  What the write can do to the manager is to give a \<open>size\<close> to a
  value that has none of its own; \<open>createBlobUrl\<close> then sees that value as a
  \<open>SizedObject\<close>.
\<close>

definition inherited_keys :: "string list" where
  "inherited_keys =
     [''constructor'', ''__defineGetter__'', ''__defineSetter__'', ''hasOwnProperty'',
      ''__lookupGetter__'', ''__lookupSetter__'', ''isPrototypeOf'', ''propertyIsEnumerable'',
      ''toString'', ''valueOf'', ''__proto__'', ''toLocaleString'']"

record bucket =
  count :: nat
  bytes :: nat

record stats =
  totalUrls :: nat
  totalComponents :: nat
  totalSize :: nat
  byComponent :: "(string \<times> bucket) list"
  byType :: "(string \<times> bucket) list"

definition add_to_bucket :: "string \<Rightarrow> nat \<Rightarrow> (string \<times> bucket) list \<Rightarrow> (string \<times> bucket) list" where
  "add_to_bucket k n m =
     (if k \<in> set inherited_keys then m
      else (let b = (case map_of m k of None \<Rightarrow> \<lparr>count = 0, bytes = 0\<rparr> | Some b \<Rightarrow> b)
            in AList.update k \<lparr>count = Suc (count b), bytes = bytes b + n\<rparr> m))"

definition type_key :: "entry \<Rightarrow> string" where
  "type_key md = (if type' md = [] then ''unknown'' else type' md)"

definition stats_step :: "entry \<Rightarrow> stats \<Rightarrow> stats" where
  "stats_step md st =
     st\<lparr>totalSize := totalSize st + size' md,
        byComponent := add_to_bucket (componentId md) (size' md) (byComponent st),
        byType := add_to_bucket (type_key md) (size' md) (byType st)\<rparr>"

definition getStats :: "state \<Rightarrow> stats" where
  "getStats s =
     fold stats_step (map snd (activeUrls s))
       \<lparr>totalUrls = length (activeUrls s), totalComponents = length (urlsByComponent s),
        totalSize = 0, byComponent = [], byType = []\<rparr>"

subsection \<open>cleanup\<close>

definition cleanup :: "state \<Rightarrow> state" where
  "cleanup s =
     (let n = length (activeUrls s);
          s1 = fold revokeObjectURL (map fst (activeUrls s)) s;
          s2 = s1\<lparr>activeUrls := [], urlsByComponent := [], cleanupCallbacks := []\<rparr>
      in if 0 < n then console_log (LogShutdown n) s2 else s2)"

section \<open>The hook \<open>useMultipleBlobUrls\<close> of \<open>hooks/useBlobUrl.js\<close>\<close>

text \<open>
  One element of the \<open>blobs\<close> array is \<open>{ blob, id, metadata }\<close> or a falsy value
  (\<open>None\<close>); \<open>id'\<close> is the source's \<open>id\<close>, and the empty string stands for every falsy id.
  The hook's own state is its ref \<open>urlsRef\<close>, its three React states, the component id
  and the calls it made to the optional \<open>onError\<close>.
\<close>

record blobData =
  blob :: blob_arg
  id' :: string
  metadata :: metadata_arg

record multi_hook =
  componentIdRef :: component_id
  urlsRef :: "(string \<times> url) list"
  urls :: "(string \<times> url) list"
  errors :: "(string \<times> string) list"
  isLoading :: bool
  onError :: bool
  onErrorCalls :: "string list"

definition with_blobId :: "blobData \<Rightarrow> metadata_arg" where
  "with_blobId d =
     (metadata d)\<lparr>m_extras := AList.update ''blobId'' (id' d) (m_extras (metadata d))\<rparr>"

definition failed_message :: "string \<Rightarrow> string" where
  "failed_message i = ''Failed to create blob URL for '' @ i"

text \<open>
  The body of the loop \<open>for (const blobData of blobArray)\<close> of \<open>createUrls\<close>, on the two
  local maps \<open>newUrls\<close> and \<open>newErrors\<close>, the hook and the manager; then the loop.
  A URL that \<open>createBlobUrl\<close> returns is never the empty string, so \<open>if (url)\<close> is the
  test for \<open>Some\<close>.
\<close>

type_synonym loop_state =
  "(string \<times> url) list \<times> (string \<times> string) list \<times> multi_hook \<times> state"

definition create_one :: "blobData option \<Rightarrow> loop_state \<Rightarrow> loop_state" where
  "create_one x acc =
     (case x of
        None \<Rightarrow> acc
      | Some d \<Rightarrow>
          (let (nu, ne, h, s) = acc
           in if blob d = Nullish \<or> id' d = [] then acc
              else (case createBlobUrl (blob d) (componentIdRef h) (with_blobId d) s of
                      (Some u, s') \<Rightarrow>
                        (AList.update (id' d) u nu, ne,
                         h\<lparr>urlsRef := AList.update (id' d) u (urlsRef h)\<rparr>, s')
                    | (None, s') \<Rightarrow>
                        (nu, AList.update (id' d) (failed_message (id' d)) ne,
                         (if onError h then h\<lparr>onErrorCalls := onErrorCalls h @ [id' d]\<rparr> else h),
                         console_log (ErrCreatingFor (id' d)) s'))))"

definition create_each :: "blobData option list \<Rightarrow> loop_state \<Rightarrow> loop_state" where
  "create_each ds acc = fold create_one ds acc"

definition createUrls ::
    "blobData option list \<Rightarrow> multi_hook \<times> state \<Rightarrow> exn option \<times> multi_hook \<times> state" where
  "createUrls blobArray hs =
     (let (h, s) = hs;
          h1 = h\<lparr>isLoading := True, errors := []\<rparr>
      in case revokeEach (map snd (urlsRef h1)) s of
           (Some e, s1) \<Rightarrow> (Some e, h1, s1)
         | (None, s1) \<Rightarrow>
             (let (nu, ne, h2, s2) = create_each blobArray ([], [], h1\<lparr>urlsRef := []\<rparr>, s1)
              in (None, h2\<lparr>urls := nu, errors := ne, isLoading := False\<rparr>, s2)))"

definition init_hook :: "component_id \<Rightarrow> multi_hook" where
  "init_hook cid = \<lparr>componentIdRef = cid, urlsRef = [], urls = [], errors = [], isLoading = False,
     onError = False, onErrorCalls = []\<rparr>"

section \<open>Observations and sample runs\<close>

text \<open>The three tables of the manager, as one value.\<close>

definition tables ::
    "state \<Rightarrow> (url \<times> entry) list \<times> (component_id \<times> url list) list \<times> (url \<times> callback) list" where
  "tables s = (activeUrls s, urlsByComponent s, cleanupCallbacks s)"

text \<open>A new manager after one \<open>createBlobUrl\<close>, and after the \<open>revokeBlobUrl\<close> of its URL.\<close>

definition scenario_created :: state where
  "scenario_created = snd (createBlobUrl (Blob 1024 ''image/png'') ''comp1'' no_metadata init)"

definition scenario_revoked :: state where
  "scenario_revoked = snd (revokeBlobUrl (Some (objectUrl 0)) scenario_created)"

text \<open>The created URL with a cleanup callback that throws.\<close>

definition scenario_callback :: state where
  "scenario_callback =
     registerCleanupCallback (objectUrl 0) (Some \<lparr>cb_id = 7, cb_throws = True\<rparr>) scenario_created"

text \<open>
  What a bucket of \<open>getStats\<close> is expected to hold for a list of entries, and a bucket
  that has already counted some.
\<close>

definition bucket_over :: "entry list \<Rightarrow> bucket option" where
  "bucket_over es =
     (if es = [] then None else Some \<lparr>count = length es, bytes = sum_list (map size' es)\<rparr>)"

definition grow :: "bucket option \<Rightarrow> entry list \<Rightarrow> bucket option" where
  "grow b es = (if es = [] then b else
     Some \<lparr>count = (case b of None \<Rightarrow> 0 | Some x \<Rightarrow> count x) + length es,
           bytes = (case b of None \<Rightarrow> 0 | Some x \<Rightarrow> bytes x) + sum_list (map size' es)\<rparr>)"

text \<open>
  The owner index agrees with the entries when every indexed URL that has an entry is
  indexed under the \<open>componentId\<close> its entry records.
\<close>

definition index_agrees :: "state \<Rightarrow> bool" where
  "index_agrees s =
     (\<forall>(c, us) \<in> set (urlsByComponent s). \<forall>u \<in> set us.
        case map_of (activeUrls s) u of None \<Rightarrow> True | Some e \<Rightarrow> componentId e = c)"

text \<open>The release tasks that revoking a list of URLs queues, from the state before.\<close>

definition release_task_for :: "state \<Rightarrow> url \<Rightarrow> (nat \<times> task) option" where
  "release_task_for s u =
     (if u = [] \<or> \<not> startsWith u ''blob:'' then None
      else map_option (\<lambda>e. (clock s + 50, Release u (componentId e))) (map_of (activeUrls s) u))"

definition release_tasks :: "state \<Rightarrow> url list \<Rightarrow> (nat \<times> task) list" where
  "release_tasks s us = List.map_filter (release_task_for s) us"

text \<open>
  A URL created for component \<open>A\<close> with caller metadata that carries its own
  \<open>componentId\<close>; and two URLs of two components.
\<close>

definition scenario_mismatch :: state where
  "scenario_mismatch =
     snd (createBlobUrl (Blob 10 ''audio/wav'') ''A'' (no_metadata\<lparr>m_componentId := Some ''B''\<rparr>) init)"

definition scenario_two_owners :: state where
  "scenario_two_owners =
     snd (createBlobUrl (Blob 5 ''audio/wav'') ''comp2'' no_metadata scenario_created)"

text \<open>
  An element of the \<open>blobs\<close> array for which \<open>createUrls\<close> makes a URL: it has an id
  and a \<open>Blob\<close> of positive size.
\<close>

definition bindable :: "blobData option \<Rightarrow> bool" where
  "bindable x =
     (case x of
        None \<Rightarrow> False
      | Some d \<Rightarrow> id' d \<noteq> [] \<and> (case blob d of Blob n t \<Rightarrow> 0 < n | _ \<Rightarrow> False))"

text \<open>
  Every URL bound in the hook was issued by the browser as its URL number \<open>n0\<close> or
  later.
\<close>

definition fresh_from :: "nat \<Rightarrow> multi_hook \<Rightarrow> state \<Rightarrow> bool" where
  "fresh_from n0 h s = (\<forall>(i, u) \<in> set (urlsRef h). \<exists>k. n0 \<le> k \<and> k < issued s \<and> u = objectUrl k)"

text \<open>A hook with one item bound, and the same hook after \<open>createUrls\<close> with the same item.\<close>

definition item_x :: blobData where
  "item_x = \<lparr>blob = Blob 3 ''image/png'', id' = ''x'', metadata = no_metadata\<rparr>"

definition scenario_bound :: "multi_hook \<times> state" where
  "scenario_bound = snd (createUrls [Some item_x] (init_hook ''gallery'', init))"

definition scenario_rebound :: "multi_hook \<times> state" where
  "scenario_rebound = snd (createUrls [Some item_x] scenario_bound)"

section \<open>Basic facts\<close>

lemmas browser_defs = console_log_def setTimeout_def revokeObjectURL_def createObjectURL_def

lemmas eval_defs = createBlobUrl_def browser_defs init_def objectUrl_def
  new_entry_def no_metadata_def override_def track_by_component_def set_add_def
  revokeBlobUrl_def revokeBlobUrl_body_def run_cleanup_callback_def invoke_def
  startsWith_def isUrlActive_def getComponentUrls_def markUrlAccessed_def
  registerCleanupCallback_def release_def tables_def

lemma getStats_cong:
  "activeUrls s = activeUrls t \<Longrightarrow> urlsByComponent s = urlsByComponent t \<Longrightarrow> getStats s = getStats t"
  by (simp add: getStats_def)

lemma scenario_created_eq:
  "scenario_created =
     \<lparr>activeUrls =
        [(''blob:'',
          \<lparr>componentId = ''comp1'', createdAt = 0, lastAccessed = 0, accessCount = 0,
           size' = 1024, type' = ''image/png'', isActive = True, extras = []\<rparr>)],
      urlsByComponent = [(''comp1'', [''blob:''])], cleanupCallbacks = [],
      issued = 1, objectUrls = [''blob:''], timers = [(100, Validate ''blob:'')], clock = 0,
      console = [LogCreated ''blob:''], invoked = []\<rparr>"
  by (simp add: scenario_created_def eval_defs)

lemma scenario_revoked_eq:
  "scenario_revoked =
     \<lparr>activeUrls =
        [(''blob:'',
          \<lparr>componentId = ''comp1'', createdAt = 0, lastAccessed = 0, accessCount = 0,
           size' = 1024, type' = ''image/png'', isActive = False, extras = []\<rparr>)],
      urlsByComponent = [(''comp1'', [''blob:''])], cleanupCallbacks = [],
      issued = 1, objectUrls = [''blob:''],
      timers = [(100, Validate ''blob:''), (50, Release ''blob:'' ''comp1'')], clock = 0,
      console = [LogCreated ''blob:''], invoked = []\<rparr>"
  by (simp add: scenario_revoked_def scenario_created_eq eval_defs)

subsection \<open>What \<open>revokeBlobUrl\<close> does, case by case\<close>

lemma body_unknown:
  "map_of (activeUrls s) u = None \<Longrightarrow>
   revokeBlobUrl_body u s = (None, console_log (WarnUnknownUrl u) s)"
  by (simp add: revokeBlobUrl_body_def)

lemma body_known:
  assumes "map_of (activeUrls s) u = Some e"
  shows "revokeBlobUrl_body u s =
    (None,
     (case map_of (cleanupCallbacks s) u of
        None \<Rightarrow>
          s\<lparr>activeUrls := AList.update u (e\<lparr>isActive := False\<rparr>) (activeUrls s),
            timers := timers s @ [(clock s + 50, Release u (componentId e))]\<rparr>
      | Some cb \<Rightarrow>
          s\<lparr>activeUrls := AList.update u (e\<lparr>isActive := False\<rparr>) (activeUrls s),
            cleanupCallbacks := AList.delete u (cleanupCallbacks s),
            invoked := invoked s @ [cb_id cb],
            console := (if cb_throws cb then console s @ [WarnCallbackError] else console s),
            timers := timers s @ [(clock s + 50, Release u (componentId e))]\<rparr>))"
  using assms
  by (simp add: revokeBlobUrl_body_def run_cleanup_callback_def invoke_def browser_defs
      split: option.splits)

lemma revoke_never_throws: "fst (revokeBlobUrl url s) = None"
  by (simp add: revokeBlobUrl_def split: option.splits prod.splits)

lemma revoke_blob:
  "u \<noteq> [] \<Longrightarrow> startsWith u ''blob:'' \<Longrightarrow> revokeBlobUrl (Some u) s = revokeBlobUrl_body u s"
  by (cases "map_of (activeUrls s) u") (simp_all add: revokeBlobUrl_def body_unknown body_known)

lemma startsWith_nonempty: "startsWith u ''blob:'' \<Longrightarrow> u \<noteq> []"
  by (auto simp: startsWith_def)

lemma revoke_twice:
  "tables (snd (revokeBlobUrl url (snd (revokeBlobUrl url s)))) = tables (snd (revokeBlobUrl url s))
   \<and> invoked (snd (revokeBlobUrl url (snd (revokeBlobUrl url s)))) = invoked (snd (revokeBlobUrl url s))
   \<and> objectUrls (snd (revokeBlobUrl url (snd (revokeBlobUrl url s))))
       = objectUrls (snd (revokeBlobUrl url s))"
proof (cases "\<exists>u. url = Some u \<and> u \<noteq> [] \<and> startsWith u ''blob:''")
  case False
  then have "revokeBlobUrl url s = (None, s)"
    by (auto simp: revokeBlobUrl_def split: option.splits)
  then show ?thesis by simp
next
  case True
  then obtain u where u: "url = Some u" "u \<noteq> []" "startsWith u ''blob:''" by blast
  show ?thesis
  proof (cases "map_of (activeUrls s) u")
    case None
    then show ?thesis
      using u by (simp add: revoke_blob body_unknown console_log_def tables_def)
  next
    case (Some e)
    define t where "t = snd (revokeBlobUrl_body u s)"
    have t: "map_of (activeUrls t) u = Some (e\<lparr>isActive := False\<rparr>)"
            "map_of (cleanupCallbacks t) u = None"
      using Some
      by (simp_all add: t_def body_known update_conv' delete_conv split: option.splits)
    have "revokeBlobUrl_body u t =
            (None, t\<lparr>timers := timers t @ [(clock t + 50, Release u (componentId e))]\<rparr>)"
      using t by (simp add: body_known update_triv)
    then show ?thesis
      using u by (simp add: revoke_blob tables_def flip: t_def)
  qed
qed

subsection \<open>The release task and \<open>cleanup\<close>\<close>

lemma fold_revokeObjectURL:
  "fold revokeObjectURL us s = s\<lparr>objectUrls := filter (\<lambda>u. u \<notin> set us) (objectUrls s)\<rparr>"
proof (induction us arbitrary: s)
  case Nil
  then show ?case by simp
next
  case (Cons u us)
  have *: "filter (\<lambda>v. v \<notin> set us) (removeAll u xs) = filter (\<lambda>v. v \<noteq> u \<and> v \<notin> set us) xs" for xs
    by (induction xs) auto
  have "fold revokeObjectURL (u # us) s = fold revokeObjectURL us (revokeObjectURL u s)"
    by simp
  also have "\<dots> = (revokeObjectURL u s)\<lparr>objectUrls :=
      filter (\<lambda>v. v \<notin> set us) (objectUrls (revokeObjectURL u s))\<rparr>"
    by (rule Cons.IH)
  also have "\<dots> = s\<lparr>objectUrls := filter (\<lambda>v. v \<notin> set (u # us)) (objectUrls s)\<rparr>"
    by (simp add: revokeObjectURL_def *)
  finally show ?case .
qed

lemma cleanup_eq:
  "cleanup s = s\<lparr>activeUrls := [], urlsByComponent := [], cleanupCallbacks := [],
      objectUrls := filter (\<lambda>u. u \<notin> fst ` set (activeUrls s)) (objectUrls s),
      console := (if activeUrls s = [] then console s else console s @ [LogShutdown (length (activeUrls s))])\<rparr>"
  by (simp add: cleanup_def fold_revokeObjectURL console_log_def Let_def)

lemma createBlobUrl_tables_only:
  assumes "tables s = tables t" "issued s = issued t" "clock s = clock t"
  shows "fst (createBlobUrl b cid m s) = fst (createBlobUrl b cid m t)
     \<and> tables (snd (createBlobUrl b cid m s)) = tables (snd (createBlobUrl b cid m t))"
  using assms
  by (cases b) (simp_all add: createBlobUrl_def tables_def browser_defs track_by_component_def
      Let_def split: option.splits)

lemma release_effect:
  "map_of (activeUrls (release u c t)) u = None
   \<and> u \<notin> set (getComponentUrls c (release u c t))
   \<and> u \<notin> set (objectUrls (release u c t))
   \<and> invoked (release u c t) = invoked t
   \<and> cleanupCallbacks (release u c t) = cleanupCallbacks t
   \<and> timers (release u c t) = timers t"
  by (simp add: release_def getComponentUrls_def browser_defs Let_def update_conv' delete_conv
      split: option.splits)

subsection \<open>The loop of \<open>getStats\<close>\<close>

lemma fold_add_to_bucket:
  assumes "c \<notin> set inherited_keys"
  shows "map_of (fold (\<lambda>e. add_to_bucket (k e) (size' e)) es m) c
     = grow (map_of m c) (filter (\<lambda>e. k e = c) es)"
proof (induction es arbitrary: m)
  case Nil
  then show ?case by (simp add: grow_def)
next
  case (Cons e es)
  have "map_of (fold (\<lambda>e. add_to_bucket (k e) (size' e)) (e # es) m) c
          = grow (map_of (add_to_bucket (k e) (size' e) m) c) (filter (\<lambda>e. k e = c) es)"
    by (simp add: Cons.IH)
  also have "\<dots> = grow (map_of m c) (filter (\<lambda>e. k e = c) (e # es))"
    using assms
    by (auto simp: add_to_bucket_def update_conv' grow_def Let_def split: option.splits)
  finally show ?case .
qed

lemma fold_add_to_bucket_inherited:
  assumes "c \<in> set inherited_keys"
  shows "map_of (fold (\<lambda>e. add_to_bucket (k e) (size' e)) es m) c = map_of m c"
proof (induction es arbitrary: m)
  case Nil
  then show ?case by simp
next
  case (Cons e es)
  have "map_of (fold (\<lambda>e. add_to_bucket (k e) (size' e)) (e # es) m) c
          = map_of (add_to_bucket (k e) (size' e) m) c"
    by (simp add: Cons.IH)
  also have "\<dots> = map_of m c"
    using assms by (auto simp: add_to_bucket_def update_conv' Let_def)
  finally show ?case .
qed

lemma fold_stats_step:
  "fold stats_step es st =
     st\<lparr>totalSize := totalSize st + sum_list (map size' es),
        byComponent := fold (\<lambda>e. add_to_bucket (componentId e) (size' e)) es (byComponent st),
        byType := fold (\<lambda>e. add_to_bucket (type_key e) (size' e)) es (byType st)\<rparr>"
proof (induction es arbitrary: st)
  case Nil
  then show ?case by simp
next
  case (Cons e es)
  show ?case by (simp add: Cons.IH) (simp add: stats_step_def)
qed

lemma length_filter_all: "(length (filter P xs) = length xs) = (\<forall>x\<in>set xs. P x)"
proof (induction xs)
  case Nil
  then show ?case by simp
next
  case (Cons x xs)
  show ?case
  proof (cases "P x")
    case True
    then show ?thesis using Cons by simp
  next
    case False
    have "length (filter P xs) \<le> length xs" by simp
    then have "length (filter P xs) \<noteq> Suc (length xs)" by linarith
    with False show ?thesis by simp
  qed
qed

subsection \<open>Revoking a list of URLs\<close>

lemma revoke_frame:
  "urlsByComponent (snd (revokeBlobUrl (Some u) s)) = urlsByComponent s
   \<and> objectUrls (snd (revokeBlobUrl (Some u) s)) = objectUrls s
   \<and> clock (snd (revokeBlobUrl (Some u) s)) = clock s
   \<and> issued (snd (revokeBlobUrl (Some u) s)) = issued s
   \<and> map fst (activeUrls (snd (revokeBlobUrl (Some u) s))) = map fst (activeUrls s)
   \<and> map_option componentId (map_of (activeUrls (snd (revokeBlobUrl (Some u) s))) v)
       = map_option componentId (map_of (activeUrls s) v)
   \<and> (v \<noteq> u \<longrightarrow> map_of (activeUrls (snd (revokeBlobUrl (Some u) s))) v = map_of (activeUrls s) v
                \<and> map_of (cleanupCallbacks (snd (revokeBlobUrl (Some u) s))) v = map_of (cleanupCallbacks s) v)
   \<and> timers (snd (revokeBlobUrl (Some u) s)) = timers s @ release_tasks s [u]"
proof (cases "u \<noteq> [] \<and> startsWith u ''blob:''")
  case False
  then have "revokeBlobUrl (Some u) s = (None, s)"
    by (auto simp: revokeBlobUrl_def)
  with False show ?thesis
    by (auto simp: release_tasks_def release_task_for_def)
next
  case True
  then have r: "revokeBlobUrl (Some u) s = revokeBlobUrl_body u s"
    by (simp add: revoke_blob)
  show ?thesis
  proof (cases "map_of (activeUrls s) u")
    case None
    with True show ?thesis
      by (simp add: r body_unknown console_log_def release_tasks_def release_task_for_def)
  next
    case (Some e)
    then have k: "u \<in> set (map fst (activeUrls s))"
      by (metis map_of_eq_None_iff option.distinct(1) set_map)
    with True Some show ?thesis
      by (simp add: r body_known [OF Some] update_conv' update_keys delete_conv
          release_tasks_def release_task_for_def split: option.splits)
  qed
qed

lemma release_tasks_append: "release_tasks s (us @ vs) = release_tasks s us @ release_tasks s vs"
  by (simp add: release_tasks_def List.map_filter_def)

lemma release_tasks_cong:
  assumes "clock t = clock s"
    and "\<And>v. map_option componentId (map_of (activeUrls t) v) = map_option componentId (map_of (activeUrls s) v)"
  shows "release_tasks t us = release_tasks s us"
proof -
  have "release_task_for t v = release_task_for s v" for v
    using assms(2) [of v] assms(1)
    by (cases "map_of (activeUrls t) v"; cases "map_of (activeUrls s) v")
       (auto simp: release_task_for_def)
  then show ?thesis by (simp add: release_tasks_def List.map_filter_def)
qed

lemma revokeEach_frame:
  "fst (revokeEach us s) = None
   \<and> urlsByComponent (snd (revokeEach us s)) = urlsByComponent s
   \<and> objectUrls (snd (revokeEach us s)) = objectUrls s
   \<and> clock (snd (revokeEach us s)) = clock s
   \<and> issued (snd (revokeEach us s)) = issued s
   \<and> map fst (activeUrls (snd (revokeEach us s))) = map fst (activeUrls s)
   \<and> (v \<notin> set us \<longrightarrow> map_of (activeUrls (snd (revokeEach us s))) v = map_of (activeUrls s) v
                \<and> map_of (cleanupCallbacks (snd (revokeEach us s))) v = map_of (cleanupCallbacks s) v)
   \<and> timers (snd (revokeEach us s)) = timers s @ release_tasks s us"
proof (induction us arbitrary: s)
  case Nil
  then show ?case by (simp add: release_tasks_def)
next
  case (Cons u us)
  define t where "t = snd (revokeBlobUrl (Some u) s)"
  have "revokeBlobUrl (Some u) s = (None, t)"
    using revoke_never_throws [of "Some u" s] by (simp add: t_def prod_eq_iff)
  then have step: "revokeEach (u # us) s = revokeEach us t"
    by simp
  note f = revoke_frame [of u s, folded t_def]
  have rt: "release_tasks t us = release_tasks s us"
    by (rule release_tasks_cong) (use f in auto)
  have "release_tasks s (u # us) = release_tasks s [u] @ release_tasks s us"
    using release_tasks_append [of s "[u]" us] by simp
  then show ?case
    using Cons.IH [of t] f [of v] rt by (simp add: step del: revokeEach.simps)
qed

lemma scenario_mismatch_eq:
  "scenario_mismatch =
     \<lparr>activeUrls =
        [(''blob:'',
          \<lparr>componentId = ''B'', createdAt = 0, lastAccessed = 0, accessCount = 0,
           size' = 10, type' = ''audio/wav'', isActive = True, extras = []\<rparr>)],
      urlsByComponent = [(''A'', [''blob:''])], cleanupCallbacks = [],
      issued = 1, objectUrls = [''blob:''], timers = [(100, Validate ''blob:'')], clock = 0,
      console = [LogCreated ''blob:''], invoked = []\<rparr>"
  by (simp add: scenario_mismatch_def eval_defs)

lemma scenario_two_owners_eq:
  "scenario_two_owners =
     \<lparr>activeUrls =
        [(''blob:'',
          \<lparr>componentId = ''comp1'', createdAt = 0, lastAccessed = 0, accessCount = 0,
           size' = 1024, type' = ''image/png'', isActive = True, extras = []\<rparr>),
         (''blob:u'',
          \<lparr>componentId = ''comp2'', createdAt = 0, lastAccessed = 0, accessCount = 0,
           size' = 5, type' = ''audio/wav'', isActive = True, extras = []\<rparr>)],
      urlsByComponent = [(''comp1'', [''blob:'']), (''comp2'', [''blob:u''])],
      cleanupCallbacks = [], issued = 2, objectUrls = [''blob:'', ''blob:u''],
      timers = [(100, Validate ''blob:''), (100, Validate ''blob:u'')], clock = 0,
      console = [LogCreated ''blob:'', LogCreated ''blob:u''], invoked = []\<rparr>"
  by (simp add: scenario_two_owners_def scenario_created_eq eval_defs)

subsection \<open>The loop of \<open>createUrls\<close>\<close>

lemma objectUrl_inj: "(objectUrl j = objectUrl k) = (j = k)"
proof
  assume "objectUrl j = objectUrl k"
  then have "length (objectUrl j) = length (objectUrl k)" by simp
  then show "j = k" by (simp add: objectUrl_def)
qed simp

lemma created_url_is_blob:
  "createBlobUrl b c m s = (Some u, s') \<Longrightarrow> startsWith u ''blob:'' \<and> u = objectUrl (issued s)"
  by (cases b)
     (auto simp: createBlobUrl_def browser_defs startsWith_def objectUrl_def Let_def
       split: if_splits)

lemma set_update_subset: "set (AList.update k v al) \<subseteq> insert (k, v) (set al)"
  by (induction al) auto

lemma createBlobUrl_cases:
  "(\<exists>s'. createBlobUrl b c m s = (Some (objectUrl (issued s)), s')
          \<and> issued s' = Suc (issued s)
          \<and> timers s' = timers s @ [(clock s + 100, Validate (objectUrl (issued s)))]
          \<and> (case b of Blob n t \<Rightarrow> 0 < n | _ \<Rightarrow> False))
   \<or> (\<exists>s'. createBlobUrl b c m s = (None, s') \<and> issued s' = issued s \<and> timers s' = timers s
          \<and> \<not> (case b of Blob n t \<Rightarrow> 0 < n | _ \<Rightarrow> False))"
  by (cases b) (simp_all add: createBlobUrl_def browser_defs track_by_component_def Let_def
      split: option.splits)

lemma create_one_step:
  assumes "create_one x (nu, ne, h, s) = (nu', ne', h', s')"
  shows "issued s \<le> issued s'
    \<and> prefix (timers s) (timers s')
    \<and> (nu = urlsRef h \<longrightarrow> nu' = urlsRef h')
    \<and> (n0 \<le> issued s \<and> fresh_from n0 h s \<longrightarrow> fresh_from n0 h' s')
    \<and> fst ` set (urlsRef h') = fst ` set (urlsRef h) \<union> (if bindable x then {id' (the x)} else {})"
proof (cases x)
  case None
  with assms show ?thesis by (simp add: create_one_def bindable_def)
next
  case (Some d)
  show ?thesis
  proof (cases "blob d = Nullish \<or> id' d = []")
    case True
    with assms Some show ?thesis by (auto simp: create_one_def bindable_def)
  next
    case False
    from createBlobUrl_cases [of "blob d" "componentIdRef h" "with_blobId d" s]
    show ?thesis
    proof (elim disjE exE conjE)
      fix t assume t: "createBlobUrl (blob d) (componentIdRef h) (with_blobId d) s = (Some (objectUrl (issued s)), t)"
        "issued t = Suc (issued s)" "timers t = timers s @ [(clock s + 100, Validate (objectUrl (issued s)))]"
        "case blob d of Blob n t \<Rightarrow> 0 < n | _ \<Rightarrow> False"
      from assms Some False t(1) have r: "nu' = AList.update (id' d) (objectUrl (issued s)) nu" "ne' = ne"
        "h' = h\<lparr>urlsRef := AList.update (id' d) (objectUrl (issued s)) (urlsRef h)\<rparr>" "s' = t"
        by (simp_all add: create_one_def)
      have fr: "fresh_from n0 h' s'" if "n0 \<le> issued s" "fresh_from n0 h s"
        unfolding fresh_from_def
      proof (clarify)
        fix i u assume "(i, u) \<in> set (urlsRef h')"
        then have "(i, u) = (id' d, objectUrl (issued s)) \<or> (i, u) \<in> set (urlsRef h)"
          using set_update_subset [of "id' d" "objectUrl (issued s)" "urlsRef h"] r(3) by auto
        then show "\<exists>k\<ge>n0. k < issued s' \<and> u = objectUrl k"
        proof
          assume "(i, u) = (id' d, objectUrl (issued s))"
          with that(1) r(4) t(2) show ?thesis by auto
        next
          assume "(i, u) \<in> set (urlsRef h)"
          with that(2) obtain k where "n0 \<le> k" "k < issued s" "u = objectUrl k"
            by (auto simp: fresh_from_def)
          with r(4) t(2) show ?thesis by auto
        qed
      qed
      have b: "bindable x" using Some False t(4) by (simp add: bindable_def)
      from r t fr b Some show ?thesis
        by (auto simp: dom_update)
    next
      fix t assume t: "createBlobUrl (blob d) (componentIdRef h) (with_blobId d) s = (None, t)"
        "issued t = issued s" "timers t = timers s"
        "\<not> (case blob d of Blob n t \<Rightarrow> 0 < n | _ \<Rightarrow> False)"
      from assms Some False t(1) have r: "nu' = nu" "urlsRef h' = urlsRef h"
        "s' = console_log (ErrCreatingFor (id' d)) t"
        by (auto simp: create_one_def)
      have b: "\<not> bindable x" using Some t(4) by (simp add: bindable_def)
      from r t b show ?thesis
        by (simp add: console_log_def fresh_from_def)
    qed
  qed
qed

lemma create_each_inv:
  assumes "create_each ds (nu, ne, h, s) = (nu', ne', h', s')"
  shows "issued s \<le> issued s'
    \<and> prefix (timers s) (timers s')
    \<and> (nu = urlsRef h \<longrightarrow> nu' = urlsRef h')
    \<and> (n0 \<le> issued s \<and> fresh_from n0 h s \<longrightarrow> fresh_from n0 h' s')
    \<and> fst ` set (urlsRef h') = fst ` set (urlsRef h) \<union> {id' (the x) | x. x \<in> set ds \<and> bindable x}"
  using assms
proof (induction ds arbitrary: nu ne h s)
  case Nil
  then show ?case by (simp add: create_each_def)
next
  case (Cons x ds)
  obtain nu1 ne1 h1 s1 where one: "create_one x (nu, ne, h, s) = (nu1, ne1, h1, s1)"
    by (cases "create_one x (nu, ne, h, s)") auto
  with Cons.prems have rest: "create_each ds (nu1, ne1, h1, s1) = (nu', ne', h', s')"
    by (simp add: create_each_def)
  note a = create_one_step [OF one, of n0]
  note b = Cons.IH [OF rest]
  have "prefix (timers s) (timers s')"
    using a b by (meson prefix_order.order_trans)
  moreover have "fst ` set (urlsRef h') = fst ` set (urlsRef h) \<union> {id' (the y) | y. y \<in> set (x # ds) \<and> bindable y}"
    using a b by auto
  ultimately show ?case
    using a b by auto
qed

lemma scenario_bound_eq:
  "scenario_bound =
    (\<lparr>componentIdRef = ''gallery'', urlsRef = [(''x'', ''blob:'')], urls = [(''x'', ''blob:'')],
      errors = [], isLoading = False, onError = False, onErrorCalls = []\<rparr>,
     \<lparr>activeUrls =
        [(''blob:'',
          \<lparr>componentId = ''gallery'', createdAt = 0, lastAccessed = 0, accessCount = 0,
           size' = 3, type' = ''image/png'', isActive = True, extras = [(''blobId'', ''x'')]\<rparr>)],
      urlsByComponent = [(''gallery'', [''blob:''])], cleanupCallbacks = [],
      issued = 1, objectUrls = [''blob:''], timers = [(100, Validate ''blob:'')], clock = 0,
      console = [LogCreated ''blob:''], invoked = []\<rparr>)"
  by (simp add: scenario_bound_def createUrls_def create_each_def create_one_def with_blobId_def
      init_hook_def item_x_def eval_defs)

lemma scenario_rebound_eq:
  "scenario_rebound =
    (\<lparr>componentIdRef = ''gallery'', urlsRef = [(''x'', ''blob:u'')], urls = [(''x'', ''blob:u'')],
      errors = [], isLoading = False, onError = False, onErrorCalls = []\<rparr>,
     \<lparr>activeUrls =
        [(''blob:'',
          \<lparr>componentId = ''gallery'', createdAt = 0, lastAccessed = 0, accessCount = 0,
           size' = 3, type' = ''image/png'', isActive = False, extras = [(''blobId'', ''x'')]\<rparr>),
         (''blob:u'',
          \<lparr>componentId = ''gallery'', createdAt = 0, lastAccessed = 0, accessCount = 0,
           size' = 3, type' = ''image/png'', isActive = True, extras = [(''blobId'', ''x'')]\<rparr>)],
      urlsByComponent = [(''gallery'', [''blob:'', ''blob:u''])], cleanupCallbacks = [],
      issued = 2, objectUrls = [''blob:'', ''blob:u''],
      timers = [(100, Validate ''blob:''), (50, Release ''blob:'' ''gallery''),
                (100, Validate ''blob:u'')],
      clock = 0, console = [LogCreated ''blob:'', LogCreated ''blob:u''], invoked = []\<rparr>)"
  by (simp add: scenario_rebound_def scenario_bound_eq createUrls_def create_each_def
      create_one_def with_blobId_def item_x_def eval_defs)

subsection \<open>Owner isolation\<close>

text \<open>
  \<open>revokeComponentUrls A\<close> lets no exception escape and touches only the URLs of \<open>A\<close>'s
  index set as it was before the call: the entry and the callback of every other URL
  are unchanged, no entry is removed, the owner index and the browser's URLs are
  unchanged, and the release tasks queued are those of \<open>A\<close>'s set, in its order.  Where
  the owner index agrees with the entries, every entry whose \<open>componentId\<close> is not \<open>A\<close>
  is therefore unchanged.  An entry made by \<open>createBlobUrl\<close> from metadata without the
  key \<open>componentId\<close> records the component it is indexed under.
\<close>

lemma create_records_argument:
  assumes "m_componentId m = None" and "createBlobUrl b cid m s = (Some u, s')"
  shows "map_option componentId (map_of (activeUrls s') u) = Some cid
    \<and> u \<in> set (getComponentUrls cid s')"
proof -
  from assms(2) obtain n t where b: "b = Blob n t" "0 < n"
    by (cases b) (auto simp: createBlobUrl_def createObjectURL_def console_log_def split: if_splits)
  have u: "u = objectUrl (issued s)"
    using created_url_is_blob [OF assms(2)] by simp
  have s': "s' = snd (createBlobUrl (Blob n t) cid m s)"
    using assms(2) b by simp
  have ce: "componentId (new_entry n t cid k m) = cid" for k
    using assms(1) by (simp add: new_entry_def override_def)
  have e: "map_option componentId (map_of (activeUrls s') u) = Some cid"
    unfolding s' u using b(2)
    by (simp add: createBlobUrl_def browser_defs track_by_component_def ce update_conv' Let_def
        split: option.splits)
  have i: "u \<in> set (getComponentUrls cid s')"
    unfolding s' u using b(2)
    by (simp add: createBlobUrl_def browser_defs track_by_component_def getComponentUrls_def
        set_add_def update_conv' Let_def split: option.splits)
  from e i show ?thesis ..
qed

lemma revokeComponentUrls_frame:
  "fst (revokeComponentUrls A s) = None
   \<and> (\<forall>u. u \<notin> set (getComponentUrls A s) \<longrightarrow>
          map_of (activeUrls (snd (revokeComponentUrls A s))) u = map_of (activeUrls s) u
        \<and> map_of (cleanupCallbacks (snd (revokeComponentUrls A s))) u = map_of (cleanupCallbacks s) u)
   \<and> map fst (activeUrls (snd (revokeComponentUrls A s))) = map fst (activeUrls s)
   \<and> urlsByComponent (snd (revokeComponentUrls A s)) = urlsByComponent s
   \<and> objectUrls (snd (revokeComponentUrls A s)) = objectUrls s
   \<and> timers (snd (revokeComponentUrls A s)) = timers s @ release_tasks s (getComponentUrls A s)
   \<and> (index_agrees s \<longrightarrow>
        (\<forall>u e. map_of (activeUrls s) u = Some e \<and> componentId e \<noteq> A \<longrightarrow>
           map_of (activeUrls (snd (revokeComponentUrls A s))) u = Some e))"
proof -
  let ?us = "getComponentUrls A s"
  let ?s' = "snd (revokeComponentUrls A s)"
  have main: "fst (revokeComponentUrls A s) = None
    \<and> map fst (activeUrls ?s') = map fst (activeUrls s)
    \<and> urlsByComponent ?s' = urlsByComponent s
    \<and> objectUrls ?s' = objectUrls s
    \<and> timers ?s' = timers s @ release_tasks s ?us"
  proof (cases "map_of (urlsByComponent s) A")
    case None
    then show ?thesis
      by (simp add: revokeComponentUrls_def getComponentUrls_def release_tasks_def)
  next
    case (Some us)
    obtain t where t: "revokeEach us s = (None, t)"
      using revokeEach_frame [of us s] by (cases "revokeEach us s") auto
    then have "revokeComponentUrls A s = (None, console_log (LogCleanedComponent A (length us)) t)"
      using Some by (simp add: revokeComponentUrls_def)
    with Some t revokeEach_frame [of us s] show ?thesis
      by (simp add: getComponentUrls_def console_log_def)
  qed
  have outside: "map_of (activeUrls ?s') u = map_of (activeUrls s) u
        \<and> map_of (cleanupCallbacks ?s') u = map_of (cleanupCallbacks s) u"
    if "u \<notin> set ?us" for u
  proof (cases "map_of (urlsByComponent s) A")
    case None
    then show ?thesis by (simp add: revokeComponentUrls_def)
  next
    case (Some us)
    obtain t where t: "revokeEach us s = (None, t)"
      using revokeEach_frame [of us s] by (cases "revokeEach us s") auto
    then have "revokeComponentUrls A s = (None, console_log (LogCleanedComponent A (length us)) t)"
      using Some by (simp add: revokeComponentUrls_def)
    with Some t revokeEach_frame [of us s u] that show ?thesis
      by (simp add: getComponentUrls_def console_log_def)
  qed
  have agrees: "map_of (activeUrls ?s') u = Some e"
    if "index_agrees s" and "map_of (activeUrls s) u = Some e" and "componentId e \<noteq> A" for u e
  proof -
    have "u \<notin> set ?us"
    proof
      assume in_us: "u \<in> set ?us"
      then obtain us where us: "map_of (urlsByComponent s) A = Some us" "u \<in> set us"
        by (cases "map_of (urlsByComponent s) A") (auto simp: getComponentUrls_def)
      then have "(A, us) \<in> set (urlsByComponent s)"
        by (simp add: map_of_SomeD)
      with that(1) us(2) that(2) have "componentId e = A"
        by (fastforce simp: index_agrees_def)
      with that(3) show False by simp
    qed
    with outside that(2) show ?thesis by simp
  qed
  from main outside agrees show ?thesis by blast
qed

lemma revokeComponentUrls_frame_example:
  "index_agrees scenario_two_owners
   \<and> objectUrl 1 \<notin> set (getComponentUrls ''comp1'' scenario_two_owners)
   \<and> map_option componentId (map_of (activeUrls scenario_two_owners) (objectUrl 1)) = Some ''comp2''
   \<and> fst (revokeComponentUrls ''comp1'' scenario_two_owners) = None
   \<and> map_of (activeUrls (snd (revokeComponentUrls ''comp1'' scenario_two_owners))) (objectUrl 1)
       = map_of (activeUrls scenario_two_owners) (objectUrl 1)"
proof -
  have a: "index_agrees scenario_two_owners"
    by (simp add: scenario_two_owners_eq index_agrees_def)
  have b: "objectUrl 1 \<notin> set (getComponentUrls ''comp1'' scenario_two_owners)"
    by (simp add: scenario_two_owners_eq getComponentUrls_def objectUrl_def)
  have c: "map_option componentId (map_of (activeUrls scenario_two_owners) (objectUrl 1)) = Some ''comp2''"
    by (simp add: scenario_two_owners_eq objectUrl_def)
  show ?thesis
    using revokeComponentUrls_frame [of "''comp1''" scenario_two_owners] a b c by blast
qed

section \<open>The claims\<close>

text \<open>
  C10.  For an argument that is \<open>null\<close>, the empty string, or a string that does not
  begin with \<open>blob:\<close>, \<open>revokeBlobUrl\<close> returns at once and the state after the call is
  the state before it: tables, timer queue, console and the record of invoked callbacks.
\<close>

theorem revoke_non_blob_is_noop:
  "url = None \<or> url = Some [] \<or> (\<exists>u. url = Some u \<and> \<not> startsWith u ''blob:'')
   \<Longrightarrow> revokeBlobUrl url s = (None, s)"
  by (auto simp: revokeBlobUrl_def)

theorem revoke_non_blob_witness:
  "\<not> startsWith ''data:x'' ''blob:''
   \<and> revokeBlobUrl (Some ''data:x'') scenario_created = (None, scenario_created)"
  using revoke_non_blob_is_noop [of "Some ''data:x''" scenario_created]
  by (simp add: startsWith_def)

text \<open>
  C2, as the code has it.  \<open>createBlobUrl\<close> on a resource of size zero, for every
  component id and metadata: the call fails by returning \<open>null\<close>, which is also what it
  returns for a falsy argument, for a value without a size and for an object that is no
  \<open>Blob\<close>; the code has no error types, and only the console warning \<open>Empty blob provided\<close>
  is particular to the empty resource.  Nothing else changes: the three tables, the
  browser's URLs, the timers and the statistics are those of before.
\<close>

theorem create_empty_rejected:
  assumes "blob_size b = Some 0"
  shows "fst (createBlobUrl b cid m s) = None
    \<and> snd (createBlobUrl b cid m s) = s\<lparr>console := console s @ [WarnEmptyBlob]\<rparr>
    \<and> tables (snd (createBlobUrl b cid m s)) = tables s
    \<and> getStats (snd (createBlobUrl b cid m s)) = getStats s
    \<and> totalUrls (getStats (snd (createBlobUrl b cid m s))) = totalUrls (getStats s)
    \<and> fst (createBlobUrl b cid m s) = fst (createBlobUrl Nullish cid m s)
    \<and> fst (createBlobUrl b cid m s) = fst (createBlobUrl NoSize cid m s)
    \<and> fst (createBlobUrl b cid m s) = fst (createBlobUrl (SizedObject (Suc n)) cid m s)"
proof -
  have r: "createBlobUrl b cid m s = (None, s\<lparr>console := console s @ [WarnEmptyBlob]\<rparr>)"
    using assms by (simp add: createBlobUrl_def console_log_def)
  have "getStats (s\<lparr>console := console s @ [WarnEmptyBlob]\<rparr>) = getStats s"
    by (rule getStats_cong) simp_all
  moreover have "fst (createBlobUrl Nullish cid m s) = None"
    "fst (createBlobUrl NoSize cid m s) = None"
    "fst (createBlobUrl (SizedObject (Suc n)) cid m s) = None"
    by (simp_all add: createBlobUrl_def createObjectURL_def)
  ultimately show ?thesis using r by (simp add: tables_def)
qed

theorem create_empty_rejected_witness:
  "blob_size (Blob 0 ''image/png'') = Some 0
   \<and> fst (createBlobUrl (Blob 0 ''image/png'') ''comp1'' no_metadata scenario_created) = None
   \<and> tables (snd (createBlobUrl (Blob 0 ''image/png'') ''comp1'' no_metadata scenario_created))
       = tables scenario_created"
  using create_empty_rejected [of "Blob 0 ''image/png''" "''comp1''" no_metadata scenario_created]
  by (simp add: tables_def)

text \<open>
  C2 as stated fails: the caller gets the same \<open>null\<close> for an empty \<open>Blob\<close>, for a falsy
  argument and for an object that is no \<open>Blob\<close>, and the hook reports the same message
  for an empty \<open>Blob\<close> and for an object that is no \<open>Blob\<close>.  No failure that the caller
  could tell apart as that of the empty resource is returned or thrown.
\<close>

theorem create_empty_same_null_counterexample:
  "createBlobUrl (Blob 0 ''image/png'') ''comp1'' no_metadata init
     = (None, init\<lparr>console := [WarnEmptyBlob]\<rparr>)
   \<and> fst (createBlobUrl Nullish ''comp1'' no_metadata init) = None
   \<and> fst (createBlobUrl (SizedObject 5) ''comp1'' no_metadata init) = None
   \<and> errors (fst (snd (createUrls
        [Some \<lparr>blob = Blob 0 ''image/png'', id' = ''x'', metadata = no_metadata\<rparr>]
        (init_hook ''gallery'', init))))
      = [(''x'', ''Failed to create blob URL for x'')]
   \<and> errors (fst (snd (createUrls
        [Some \<lparr>blob = SizedObject 5, id' = ''x'', metadata = no_metadata\<rparr>]
        (init_hook ''gallery'', init))))
      = [(''x'', ''Failed to create blob URL for x'')]"
  by (simp add: createUrls_def create_each_def create_one_def with_blobId_def init_hook_def
      failed_message_def eval_defs)

text \<open>
  C5.  \<open>revokeBlobUrl\<close> lets no exception escape, whatever its argument and whatever the
  state (a URL never created and a URL already revoked included), and a second call right
  after the first leaves the three tables, the statistics, the browser's URLs and the
  record of invoked callbacks as the first call left them.
\<close>

theorem revoke_idempotent:
  "fst (revokeBlobUrl url s) = None
   \<and> fst (revokeBlobUrl url (snd (revokeBlobUrl url s))) = None
   \<and> tables (snd (revokeBlobUrl url (snd (revokeBlobUrl url s)))) = tables (snd (revokeBlobUrl url s))
   \<and> getStats (snd (revokeBlobUrl url (snd (revokeBlobUrl url s))))
       = getStats (snd (revokeBlobUrl url s))
   \<and> invoked (snd (revokeBlobUrl url (snd (revokeBlobUrl url s)))) = invoked (snd (revokeBlobUrl url s))
   \<and> objectUrls (snd (revokeBlobUrl url (snd (revokeBlobUrl url s))))
       = objectUrls (snd (revokeBlobUrl url s))"
proof -
  let ?s1 = "snd (revokeBlobUrl url s)"
  let ?s2 = "snd (revokeBlobUrl url ?s1)"
  have same: "tables ?s2 = tables ?s1 \<and> invoked ?s2 = invoked ?s1 \<and> objectUrls ?s2 = objectUrls ?s1"
    by (rule revoke_twice)
  then have "getStats ?s2 = getStats ?s1"
    by (intro getStats_cong) (simp_all add: tables_def)
  with same show ?thesis by (simp add: revoke_never_throws)
qed

theorem revoke_idempotent_witness:
  "fst (revokeBlobUrl (Some (objectUrl 0)) scenario_revoked) = None
   \<and> tables (snd (revokeBlobUrl (Some (objectUrl 0)) scenario_revoked)) = tables scenario_revoked"
  using revoke_idempotent [of "Some (objectUrl 0)" scenario_created]
  by (simp add: scenario_revoked_def)

text \<open>
  C7.  \<open>cleanup\<close>, from every state: the three tables are empty when it returns, the
  browser has lost every URL that was tracked, and no timer has been queued (the URLs
  are released in the call itself, not 50 ms later).  A \<open>createBlobUrl\<close> that follows
  returns what it returns on a new manager in the same browser, and leaves the same
  tables: for a \<open>Blob\<close> of positive size it succeeds and the tables hold this one URL.
\<close>

theorem cleanup_resets:
  "tables (cleanup s) = ([], [], [])
   \<and> set (objectUrls (cleanup s)) = set (objectUrls s) - fst ` set (activeUrls s)
   \<and> timers (cleanup s) = timers s
   \<and> fst (createBlobUrl b cid m (cleanup s))
        = fst (createBlobUrl b cid m (init\<lparr>issued := issued s, clock := clock s\<rparr>))
   \<and> tables (snd (createBlobUrl b cid m (cleanup s)))
        = tables (snd (createBlobUrl b cid m (init\<lparr>issued := issued s, clock := clock s\<rparr>)))
   \<and> (0 < n \<longrightarrow> fst (createBlobUrl (Blob n t) cid m (cleanup s)) = Some (objectUrl (issued s))
         \<and> tables (snd (createBlobUrl (Blob n t) cid m (cleanup s)))
            = ([(objectUrl (issued s), new_entry n t cid (clock s) m)], [(cid, [objectUrl (issued s)])], []))"
proof -
  have a: "tables (cleanup s) = ([], [], [])"
    by (simp add: cleanup_eq tables_def)
  have b: "set (objectUrls (cleanup s)) = set (objectUrls s) - fst ` set (activeUrls s)"
    by (auto simp: cleanup_eq)
  have c: "timers (cleanup s) = timers s"
    by (simp add: cleanup_eq)
  have d: "fst (createBlobUrl b cid m (cleanup s))
        = fst (createBlobUrl b cid m (init\<lparr>issued := issued s, clock := clock s\<rparr>))
      \<and> tables (snd (createBlobUrl b cid m (cleanup s)))
        = tables (snd (createBlobUrl b cid m (init\<lparr>issued := issued s, clock := clock s\<rparr>)))"
    by (rule createBlobUrl_tables_only) (simp_all add: cleanup_eq tables_def init_def)
  have e: "0 < n \<longrightarrow> fst (createBlobUrl (Blob n t) cid m (cleanup s)) = Some (objectUrl (issued s))
         \<and> tables (snd (createBlobUrl (Blob n t) cid m (cleanup s)))
            = ([(objectUrl (issued s), new_entry n t cid (clock s) m)], [(cid, [objectUrl (issued s)])], [])"
    by (simp add: createBlobUrl_def cleanup_eq tables_def browser_defs track_by_component_def)
  from a b c d e show ?thesis by blast
qed

theorem cleanup_resets_witness:
  "tables (cleanup scenario_revoked) = ([], [], [])
   \<and> set (objectUrls (cleanup scenario_revoked)) = {}
   \<and> fst (createBlobUrl (Blob 7 ''audio/wav'') ''comp2'' no_metadata (cleanup scenario_revoked))
       = Some (objectUrl 1)"
proof -
  have i: "issued scenario_revoked = 1"
    by (simp add: scenario_revoked_eq)
  have o: "set (objectUrls scenario_revoked) - fst ` set (activeUrls scenario_revoked) = {}"
    by (simp add: scenario_revoked_eq)
  note w = cleanup_resets [of scenario_revoked "Blob 7 ''audio/wav''" "''comp2''" no_metadata 7 "''audio/wav''"]
  have "tables (cleanup scenario_revoked) = ([], [], [])"
    using w by blast
  moreover have "set (objectUrls (cleanup scenario_revoked)) = {}"
    using w o by metis
  moreover have "fst (createBlobUrl (Blob 7 ''audio/wav'') ''comp2'' no_metadata (cleanup scenario_revoked))
       = Some (objectUrl 1)"
    using w i by (metis zero_less_numeral)
  ultimately show ?thesis by blast
qed

text \<open>
  C9, as the code has it.  \<open>markUrlAccessed\<close> changes nothing when the URL has no entry
  in \<open>activeUrls\<close>.  When it has one, whatever the entry's \<open>isActive\<close> flag, the entry's
  \<open>accessCount\<close> grows by one and its \<open>lastAccessed\<close> becomes the clock's reading (which
  is no smaller than the old value unless the old value was ahead of the clock); every
  other entry, the order of the table and the rest of the state stay as they were.
\<close>

theorem markUrlAccessed_effect:
  "(map_of (activeUrls s) u = None \<longrightarrow> markUrlAccessed u s = s)
   \<and> (\<forall>e. map_of (activeUrls s) u = Some e \<longrightarrow>
         map_of (activeUrls (markUrlAccessed u s)) u
           = Some (e\<lparr>lastAccessed := clock s, accessCount := accessCount e + 1\<rparr>)
       \<and> (\<forall>v. v \<noteq> u \<longrightarrow> map_of (activeUrls (markUrlAccessed u s)) v = map_of (activeUrls s) v)
       \<and> map fst (activeUrls (markUrlAccessed u s)) = map fst (activeUrls s)
       \<and> markUrlAccessed u s = s\<lparr>activeUrls := activeUrls (markUrlAccessed u s)\<rparr>
       \<and> (lastAccessed e \<le> clock s \<longrightarrow>
            map_option (\<lambda>e'. lastAccessed e \<le> lastAccessed e')
              (map_of (activeUrls (markUrlAccessed u s)) u) = Some True))"
proof (intro conjI allI impI)
  assume "map_of (activeUrls s) u = None"
  then show "markUrlAccessed u s = s" by (simp add: markUrlAccessed_def)
next
  fix e assume e: "map_of (activeUrls s) u = Some e"
  then have k: "u \<in> set (map fst (activeUrls s))"
    by (metis map_of_eq_None_iff option.distinct(1) set_map)
  show "map_of (activeUrls (markUrlAccessed u s)) u
           = Some (e\<lparr>lastAccessed := clock s, accessCount := accessCount e + 1\<rparr>)"
    using e by (simp add: markUrlAccessed_def update_conv')
  show "map fst (activeUrls (markUrlAccessed u s)) = map fst (activeUrls s)"
    using e k by (simp add: markUrlAccessed_def update_keys)
  show "markUrlAccessed u s = s\<lparr>activeUrls := activeUrls (markUrlAccessed u s)\<rparr>"
    using e by (simp add: markUrlAccessed_def)
  show "map_option (\<lambda>e'. lastAccessed e \<le> lastAccessed e')
          (map_of (activeUrls (markUrlAccessed u s)) u) = Some True"
    if "lastAccessed e \<le> clock s"
    using e that by (simp add: markUrlAccessed_def update_conv')
  fix v assume "v \<noteq> u"
  then show "map_of (activeUrls (markUrlAccessed u s)) v = map_of (activeUrls s) v"
    using e by (simp add: markUrlAccessed_def update_conv')
qed

theorem markUrlAccessed_effect_witness:
  "map_option accessCount
       (map_of (activeUrls (markUrlAccessed (objectUrl 0) scenario_created)) (objectUrl 0)) = Some 1
   \<and> markUrlAccessed ''blob:zzz'' scenario_created = scenario_created"
  using markUrlAccessed_effect [of scenario_created "objectUrl 0"]
    markUrlAccessed_effect [of scenario_created "''blob:zzz''"]
  by (simp add: scenario_created_eq objectUrl_def)

text \<open>
  C9 as stated fails: the entry of a URL that has been revoked and is waiting for its
  release has \<open>isActive\<close> false, and \<open>markUrlAccessed\<close> still counts the access.
\<close>

theorem markUrlAccessed_inactive_counterexample:
  "map_option isActive (map_of (activeUrls scenario_revoked) (objectUrl 0)) = Some False
   \<and> markUrlAccessed (objectUrl 0) scenario_revoked \<noteq> scenario_revoked
   \<and> map_option accessCount (map_of (activeUrls scenario_revoked) (objectUrl 0)) = Some 0
   \<and> map_option accessCount
       (map_of (activeUrls (markUrlAccessed (objectUrl 0) scenario_revoked)) (objectUrl 0)) = Some 1"
  by (simp add: scenario_revoked_eq markUrlAccessed_def objectUrl_def)

text \<open>
  C1, as the code has it.  For a tracked URL \<open>h\<close> of the scheme \<open>blob:\<close>, when
  \<open>revokeBlobUrl\<close> returns the entry of \<open>h\<close> has its \<open>isActive\<close> flag false, and nothing
  else of the bookkeeping has happened yet: the entry is still in \<open>activeUrls\<close>, the
  owner index and the browser's URLs are untouched, and one release task for \<open>h\<close> is
  queued, due 50 ms later.  When that task runs, \<open>h\<close> leaves \<open>activeUrls\<close> (so
  \<open>isUrlActive\<close> is false), the index set of the entry's component, and the browser.
\<close>

theorem revoke_deactivates_then_releases:
  assumes "map_of (activeUrls s) h = Some e" and "startsWith h ''blob:''"
  shows "map_of (activeUrls (snd (revokeBlobUrl (Some h) s))) h = Some (e\<lparr>isActive := False\<rparr>)
    \<and> map fst (activeUrls (snd (revokeBlobUrl (Some h) s))) = map fst (activeUrls s)
    \<and> urlsByComponent (snd (revokeBlobUrl (Some h) s)) = urlsByComponent s
    \<and> objectUrls (snd (revokeBlobUrl (Some h) s)) = objectUrls s
    \<and> timers (snd (revokeBlobUrl (Some h) s)) = timers s @ [(clock s + 50, Release h (componentId e))]
    \<and> \<not> isUrlActive h (fire (Release h (componentId e)) (snd (revokeBlobUrl (Some h) s)))
    \<and> h \<notin> set (getComponentUrls (componentId e)
                  (fire (Release h (componentId e)) (snd (revokeBlobUrl (Some h) s))))
    \<and> h \<notin> set (objectUrls (fire (Release h (componentId e)) (snd (revokeBlobUrl (Some h) s))))"
proof -
  have k: "h \<in> set (map fst (activeUrls s))"
    using assms(1) by (metis map_of_eq_None_iff option.distinct(1) set_map)
  have r: "revokeBlobUrl (Some h) s = revokeBlobUrl_body h s"
    using assms(2) by (simp add: revoke_blob startsWith_nonempty)
  have "map_of (activeUrls (snd (revokeBlobUrl_body h s))) h = Some (e\<lparr>isActive := False\<rparr>)
    \<and> map fst (activeUrls (snd (revokeBlobUrl_body h s))) = map fst (activeUrls s)
    \<and> urlsByComponent (snd (revokeBlobUrl_body h s)) = urlsByComponent s
    \<and> objectUrls (snd (revokeBlobUrl_body h s)) = objectUrls s
    \<and> timers (snd (revokeBlobUrl_body h s)) = timers s @ [(clock s + 50, Release h (componentId e))]"
    using k by (simp add: body_known [OF assms(1)] update_conv' update_keys split: option.splits)
  then show ?thesis
    by (simp add: r release_effect isUrlActive_def)
qed

theorem revoke_deactivates_witness:
  "map_of (activeUrls scenario_created) (objectUrl 0)
     = Some \<lparr>componentId = ''comp1'', createdAt = 0, lastAccessed = 0, accessCount = 0,
           size' = 1024, type' = ''image/png'', isActive = True, extras = []\<rparr>
   \<and> startsWith (objectUrl 0) ''blob:''
   \<and> map_option isActive (map_of (activeUrls scenario_revoked) (objectUrl 0)) = Some False
   \<and> \<not> isUrlActive (objectUrl 0) (fire (Release (objectUrl 0) ''comp1'') scenario_revoked)"
proof -
  have a: "map_of (activeUrls scenario_created) (objectUrl 0)
     = Some \<lparr>componentId = ''comp1'', createdAt = 0, lastAccessed = 0, accessCount = 0,
           size' = 1024, type' = ''image/png'', isActive = True, extras = []\<rparr>"
    by (simp add: scenario_created_eq objectUrl_def)
  have b: "startsWith (objectUrl 0) ''blob:''"
    by (simp add: startsWith_def objectUrl_def)
  show ?thesis
    using revoke_deactivates_then_releases [OF a b] a b
    by (simp add: scenario_revoked_def)
qed

text \<open>
  C1 as stated fails: right after \<open>revokeBlobUrl\<close> returns, \<open>isUrlActive\<close> still answers
  true for the URL and the URL is still in its owner's index set.
\<close>

theorem revoke_keeps_entry_counterexample:
  "isUrlActive (objectUrl 0) (snd (revokeBlobUrl (Some (objectUrl 0)) scenario_created))
   \<and> objectUrl 0 \<in> set (getComponentUrls ''comp1''
        (snd (revokeBlobUrl (Some (objectUrl 0)) scenario_created)))"
  unfolding scenario_revoked_def [symmetric]
  by (simp add: scenario_revoked_eq isUrlActive_def getComponentUrls_def objectUrl_def)

text \<open>
  C6.  For a tracked URL \<open>h\<close> of the scheme \<open>blob:\<close> with a registered callback:
  \<open>revokeBlobUrl\<close> returns normally whether the callback throws or not, the callback has
  been invoked once, the browser still holds the URL at that moment and the release is
  only queued, the callback table has no entry for \<open>h\<close> any more, the entry of \<open>h\<close> is
  inactive, and a thrown exception shows as one warning on the console.  Neither a
  second \<open>revokeBlobUrl\<close> nor the release task invokes the callback again.  Registering a
  second callback for \<open>h\<close> leaves the table as if only the second had been registered.
\<close>

theorem cleanup_callback_runs_once:
  assumes "map_of (activeUrls s) h = Some e" and "startsWith h ''blob:''"
    and "map_of (cleanupCallbacks s) h = Some cb"
  shows "fst (revokeBlobUrl (Some h) s) = None
    \<and> invoked (snd (revokeBlobUrl (Some h) s)) = invoked s @ [cb_id cb]
    \<and> objectUrls (snd (revokeBlobUrl (Some h) s)) = objectUrls s
    \<and> timers (snd (revokeBlobUrl (Some h) s)) = timers s @ [(clock s + 50, Release h (componentId e))]
    \<and> map_of (cleanupCallbacks (snd (revokeBlobUrl (Some h) s))) h = None
    \<and> map_of (activeUrls (snd (revokeBlobUrl (Some h) s))) h = Some (e\<lparr>isActive := False\<rparr>)
    \<and> console (snd (revokeBlobUrl (Some h) s))
        = (if cb_throws cb then console s @ [WarnCallbackError] else console s)
    \<and> invoked (snd (revokeBlobUrl (Some h) (snd (revokeBlobUrl (Some h) s)))) = invoked s @ [cb_id cb]
    \<and> invoked (fire (Release h (componentId e)) (snd (revokeBlobUrl (Some h) s))) = invoked s @ [cb_id cb]
    \<and> h \<notin> set (objectUrls (fire (Release h (componentId e)) (snd (revokeBlobUrl (Some h) s))))
    \<and> cleanupCallbacks (registerCleanupCallback h (Some c2) (registerCleanupCallback h (Some c1) s))
        = cleanupCallbacks (registerCleanupCallback h (Some c2) s)
    \<and> map_of (cleanupCallbacks (registerCleanupCallback h (Some c2) (registerCleanupCallback h (Some c1) s))) h
        = Some c2"
proof -
  let ?s1 = "snd (revokeBlobUrl (Some h) s)"
  have r: "revokeBlobUrl (Some h) t = revokeBlobUrl_body h t" for t
    using assms(2) by (simp add: revoke_blob startsWith_nonempty)
  have first: "invoked ?s1 = invoked s @ [cb_id cb]"
    "objectUrls ?s1 = objectUrls s"
    "timers ?s1 = timers s @ [(clock s + 50, Release h (componentId e))]"
    "map_of (cleanupCallbacks ?s1) h = None"
    "map_of (activeUrls ?s1) h = Some (e\<lparr>isActive := False\<rparr>)"
    "console ?s1 = (if cb_throws cb then console s @ [WarnCallbackError] else console s)"
    using assms(3) by (simp_all add: r body_known [OF assms(1)] update_conv' delete_conv)
  have second: "invoked (snd (revokeBlobUrl (Some h) ?s1)) = invoked s @ [cb_id cb]"
    using revoke_twice [of "Some h" s] first(1) by simp
  have third: "invoked (fire (Release h (componentId e)) ?s1) = invoked s @ [cb_id cb]"
    "h \<notin> set (objectUrls (fire (Release h (componentId e)) ?s1))"
    using first(1) by (simp_all add: release_effect)
  have reg: "cleanupCallbacks (registerCleanupCallback h (Some c2) (registerCleanupCallback h (Some c1) s))
        = cleanupCallbacks (registerCleanupCallback h (Some c2) s)"
    "map_of (cleanupCallbacks (registerCleanupCallback h (Some c2) (registerCleanupCallback h (Some c1) s))) h
        = Some c2"
    by (simp_all add: registerCleanupCallback_def update_conv')
  from first second third reg show ?thesis
    by (simp add: revoke_never_throws)
qed

theorem cleanup_callback_witness:
  "map_of (cleanupCallbacks scenario_callback) (objectUrl 0) = Some \<lparr>cb_id = 7, cb_throws = True\<rparr>
   \<and> startsWith (objectUrl 0) ''blob:''
   \<and> fst (revokeBlobUrl (Some (objectUrl 0)) scenario_callback) = None
   \<and> invoked (snd (revokeBlobUrl (Some (objectUrl 0)) scenario_callback)) = [7]
   \<and> map_of (cleanupCallbacks (snd (revokeBlobUrl (Some (objectUrl 0)) scenario_callback))) (objectUrl 0) = None
   \<and> map_option isActive (map_of (activeUrls (snd (revokeBlobUrl (Some (objectUrl 0)) scenario_callback))) (objectUrl 0))
        = Some False"
proof -
  have a: "map_of (activeUrls scenario_callback) (objectUrl 0)
     = Some \<lparr>componentId = ''comp1'', createdAt = 0, lastAccessed = 0, accessCount = 0,
           size' = 1024, type' = ''image/png'', isActive = True, extras = []\<rparr>"
    by (simp add: scenario_callback_def registerCleanupCallback_def scenario_created_eq objectUrl_def)
  have b: "startsWith (objectUrl 0) ''blob:''"
    by (simp add: startsWith_def objectUrl_def)
  have c: "map_of (cleanupCallbacks scenario_callback) (objectUrl 0) = Some \<lparr>cb_id = 7, cb_throws = True\<rparr>"
    by (simp add: scenario_callback_def registerCleanupCallback_def scenario_created_eq objectUrl_def)
  have d: "invoked scenario_callback = []"
    by (simp add: scenario_callback_def registerCleanupCallback_def scenario_created_eq)
  show ?thesis
    using cleanup_callback_runs_once [OF a b c] b c d by simp
qed

text \<open>
  C3, as the code has it.  \<open>getStats\<close> counts the entries of \<open>activeUrls\<close>, whatever
  their \<open>isActive\<close> flag: \<open>totalUrls\<close> is the size of the table, \<open>totalSize\<close> the sum of
  the sizes of all its entries, and, for a component id or a type that is not the name
  of a property inherited from \<open>Object.prototype\<close>, the bucket holds the number and the
  bytes of all entries of that component or type.  So \<open>totalUrls\<close> is the number of
  entries with \<open>isActive\<close> true exactly when no entry of the table is inactive.
\<close>

theorem getStats_counts_tracked:
  "totalUrls (getStats s) = length (activeUrls s)
   \<and> totalComponents (getStats s) = length (urlsByComponent s)
   \<and> totalSize (getStats s) = sum_list (map (size' \<circ> snd) (activeUrls s))
   \<and> (c \<notin> set inherited_keys \<longrightarrow>
        map_of (byComponent (getStats s)) c
          = bucket_over (filter (\<lambda>e. componentId e = c) (map snd (activeUrls s))))
   \<and> (t \<notin> set inherited_keys \<longrightarrow>
        map_of (byType (getStats s)) t
          = bucket_over (filter (\<lambda>e. type_key e = t) (map snd (activeUrls s))))
   \<and> ((totalUrls (getStats s) = length (filter isActive (map snd (activeUrls s))))
        = (\<forall>e \<in> set (map snd (activeUrls s)). isActive e))"
proof -
  have g: "grow None es = bucket_over es" for es
    by (simp add: grow_def bucket_over_def)
  have u: "totalUrls (getStats s) = length (activeUrls s)"
    by (simp add: getStats_def fold_stats_step)
  have "(length (activeUrls s) = length (filter isActive (map snd (activeUrls s))))
        = (\<forall>e \<in> set (map snd (activeUrls s)). isActive e)"
    using length_filter_all [of isActive "map snd (activeUrls s)"] by auto
  with u show ?thesis
    by (simp add: getStats_def fold_stats_step fold_add_to_bucket g comp_def)
qed

theorem getStats_counts_witness:
  "list_all isActive (map snd (activeUrls scenario_created))
   \<and> ''comp1'' \<notin> set inherited_keys
   \<and> ''image/png'' \<notin> set inherited_keys
   \<and> totalUrls (getStats scenario_created) = 1
   \<and> length (filter isActive (map snd (activeUrls scenario_created))) = 1
   \<and> map_of (byComponent (getStats scenario_created)) ''comp1'' = Some \<lparr>count = 1, bytes = 1024\<rparr>
   \<and> map_of (byType (getStats scenario_created)) ''image/png'' = Some \<lparr>count = 1, bytes = 1024\<rparr>"
proof -
  have a: "\<forall>e \<in> set (map snd (activeUrls scenario_created)). isActive e"
    by (simp add: scenario_created_eq)
  have b: "length (activeUrls scenario_created) = 1"
    by (simp add: scenario_created_eq)
  have c: "bucket_over (filter (\<lambda>e. componentId e = ''comp1'') (map snd (activeUrls scenario_created)))
           = Some \<lparr>count = 1, bytes = 1024\<rparr>"
    by (simp add: scenario_created_eq bucket_over_def)
  have c': "bucket_over (filter (\<lambda>e. type_key e = ''image/png'') (map snd (activeUrls scenario_created)))
           = Some \<lparr>count = 1, bytes = 1024\<rparr>"
    by (simp add: scenario_created_eq bucket_over_def type_key_def)
  have d: "list_all isActive (map snd (activeUrls scenario_created))"
    using a by (simp add: list_all_iff)
  have k: "''comp1'' \<notin> set inherited_keys" "''image/png'' \<notin> set inherited_keys"
    by (simp_all add: inherited_keys_def)
  show ?thesis
    using getStats_counts_tracked [of scenario_created "''comp1''" "''image/png''"] a b c c' d k
    by metis
qed

text \<open>
  C3 as stated fails: a revoked entry that waits for its release is inactive and is
  still counted, in \<open>totalUrls\<close> and in the bytes.
\<close>

theorem getStats_counts_inactive_counterexample:
  "totalUrls (getStats scenario_revoked) = 1
   \<and> length (filter isActive (map snd (activeUrls scenario_revoked))) = 0
   \<and> totalSize (getStats scenario_revoked) = 1024"
  by (simp add: scenario_revoked_eq getStats_def stats_step_def)

text \<open>
  C8.  \<open>revokeComponentUrls A\<close> is to leave every entry whose owner is not \<open>A\<close> as it was.
  The code breaks this at an entry that \<open>createBlobUrl\<close> made for \<open>A\<close> from metadata with
  the key \<open>componentId\<close>: the object literal spreads the caller's metadata last, so the
  entry records \<open>B\<close> while the owner index (and the log) use the argument \<open>A\<close>.  Run on
  this input: the entry records \<open>B\<close>, only \<open>A\<close>'s index set holds the URL, and
  \<open>revokeComponentUrls A\<close> deactivates the entry; the release task then looks the URL up
  under \<open>B\<close>, and the URL stays in \<open>A\<close>'s index set after the release.
\<close>

theorem revokeComponentUrls_deactivates_other_owner:
  "map_option componentId (map_of (activeUrls scenario_mismatch) (objectUrl 0)) = Some ''B''
   \<and> getComponentUrls ''A'' scenario_mismatch = [objectUrl 0]
   \<and> getComponentUrls ''B'' scenario_mismatch = []
   \<and> map_option isActive (map_of (activeUrls scenario_mismatch) (objectUrl 0)) = Some True
   \<and> map_option isActive
       (map_of (activeUrls (snd (revokeComponentUrls ''A'' scenario_mismatch))) (objectUrl 0))
      = Some False
   \<and> timers (snd (revokeComponentUrls ''A'' scenario_mismatch))
      = timers scenario_mismatch @ [(50, Release (objectUrl 0) ''B'')]
   \<and> getComponentUrls ''A''
        (release (objectUrl 0) ''B'' (snd (revokeComponentUrls ''A'' scenario_mismatch)))
      = [objectUrl 0]"
  by (simp add: scenario_mismatch_eq revokeComponentUrls_def eval_defs)

text \<open>
  C4, as the code has it.  \<open>createUrls\<close> of \<open>useMultipleBlobUrls\<close> lets no exception
  escape; it revokes every URL bound before the call, whether its item is in the new
  array or not (the release task of each is queued); every URL bound after the call was
  issued by the browser during the call, so it differs from every URL issued before;
  the items bound after the call are those of the new array with an id and a \<open>Blob\<close> of
  positive size; and the \<open>urls\<close> state is the ref's map.
\<close>

theorem createUrls_rebinds_everything:
  "fst (createUrls items (h, s)) = None
   \<and> prefix (timers s @ release_tasks s (map snd (urlsRef h)))
        (timers (snd (snd (createUrls items (h, s)))))
   \<and> (\<forall>(i, u) \<in> set (urlsRef (fst (snd (createUrls items (h, s))))).
        \<exists>k. issued s \<le> k \<and> k < issued (snd (snd (createUrls items (h, s)))) \<and> u = objectUrl k)
   \<and> (\<forall>(i, u) \<in> set (urlsRef (fst (snd (createUrls items (h, s))))).
        \<forall>j < issued s. u \<noteq> objectUrl j)
   \<and> fst ` set (urlsRef (fst (snd (createUrls items (h, s)))))
        = {id' (the x) | x. x \<in> set items \<and> bindable x}
   \<and> urls (fst (snd (createUrls items (h, s)))) = urlsRef (fst (snd (createUrls items (h, s))))
   \<and> \<not> isLoading (fst (snd (createUrls items (h, s))))"
proof -
  define h1 where "h1 = h\<lparr>isLoading := True, errors := []\<rparr>"
  obtain s1 where s1: "revokeEach (map snd (urlsRef h)) s = (None, s1)"
    using revokeEach_frame [of "map snd (urlsRef h)" s]
    by (cases "revokeEach (map snd (urlsRef h)) s") auto
  have fr: "issued s1 = issued s" "timers s1 = timers s @ release_tasks s (map snd (urlsRef h))"
    using revokeEach_frame [of "map snd (urlsRef h)" s] s1 by simp_all
  obtain nu ne h2 s2 where loop: "create_each items ([], [], h1\<lparr>urlsRef := []\<rparr>, s1) = (nu, ne, h2, s2)"
    by (cases "create_each items ([], [], h1\<lparr>urlsRef := []\<rparr>, s1)") auto
  have res: "createUrls items (h, s) = (None, h2\<lparr>urls := nu, errors := ne, isLoading := False\<rparr>, s2)"
    using s1 loop by (simp add: createUrls_def h1_def)
  note inv = create_each_inv [OF loop, of "issued s"]
  have f0: "fresh_from (issued s) (h1\<lparr>urlsRef := []\<rparr>) s1"
    by (simp add: fresh_from_def)
  have fresh: "fresh_from (issued s) h2 s2"
    using inv f0 fr(1) by simp
  have new: "\<forall>(i, u) \<in> set (urlsRef h2). \<exists>k. issued s \<le> k \<and> k < issued s2 \<and> u = objectUrl k"
    using fresh by (simp add: fresh_from_def)
  have differs: "\<forall>(i, u) \<in> set (urlsRef h2). \<forall>j < issued s. u \<noteq> objectUrl j"
    using new by (fastforce simp: objectUrl_inj)
  have pre: "prefix (timers s @ release_tasks s (map snd (urlsRef h))) (timers s2)"
    using inv fr(2) by simp
  have keys: "fst ` set (urlsRef h2) = {id' (the x) | x. x \<in> set items \<and> bindable x}"
    using inv by simp
  have same: "nu = urlsRef h2"
    using inv by simp
  from new differs pre keys same show ?thesis
    by (simp add: res)
qed

theorem createUrls_rebinds_witness:
  "urlsRef (fst scenario_bound) = [(''x'', objectUrl 0)]
   \<and> urlsRef (fst scenario_rebound) = [(''x'', objectUrl 1)]
   \<and> release_tasks (snd scenario_bound) (map snd (urlsRef (fst scenario_bound)))
       = [(50, Release (objectUrl 0) ''gallery'')]
   \<and> fst (createUrls [Some item_x] scenario_bound) = None
   \<and> prefix (timers (snd scenario_bound) @ [(50, Release (objectUrl 0) ''gallery'')])
        (timers (snd scenario_rebound))
   \<and> urls (fst scenario_rebound) = urlsRef (fst scenario_rebound)"
proof -
  have a: "urlsRef (fst scenario_bound) = [(''x'', objectUrl 0)]"
    "urlsRef (fst scenario_rebound) = [(''x'', objectUrl 1)]"
    by (simp_all add: scenario_bound_eq scenario_rebound_eq objectUrl_def)
  have b: "release_tasks (snd scenario_bound) (map snd (urlsRef (fst scenario_bound)))
       = [(50, Release (objectUrl 0) ''gallery'')]"
    by (simp add: scenario_bound_eq release_tasks_def release_task_for_def startsWith_def
        objectUrl_def)
  have c: "scenario_rebound = snd (createUrls [Some item_x] (fst scenario_bound, snd scenario_bound))"
    by (simp add: scenario_rebound_def)
  show ?thesis
    using createUrls_rebinds_everything [of "[Some item_x]" "fst scenario_bound" "snd scenario_bound"]
      a b c
    by simp
qed

text \<open>
  C4 as stated fails: an item present before and after \<open>createUrls\<close> does not keep its
  URL.  The old URL is revoked and the item is bound to a new one.
\<close>

theorem createUrls_recreates_kept_item_counterexample:
  "map_of (urlsRef (fst scenario_bound)) ''x'' = Some (objectUrl 0)
   \<and> map_of (urlsRef (fst (snd (createUrls [Some item_x] scenario_bound)))) ''x'' = Some (objectUrl 1)
   \<and> objectUrl 1 \<noteq> objectUrl 0
   \<and> map_option isActive
        (map_of (activeUrls (snd (snd (createUrls [Some item_x] scenario_bound)))) (objectUrl 0))
       = Some False"
  unfolding scenario_rebound_def [symmetric]
  by (simp add: scenario_bound_eq scenario_rebound_eq objectUrl_def)

end
